theory Spec2Isabelle
  imports Main "HOL-Library.FSet" "HOL-Library.AList"
begin

section \<open>Data model\<close>

text \<open>
  The solver of \<^verbatim>\<open>sudoku_grid.py\<close> works on \<^verbatim>\<open>Sudoku\<close> objects with the fields
  \<^verbatim>\<open>cells\<close> (a dictionary from cell coordinates to sets of candidate digits),
  \<^verbatim>\<open>peers\<close> (a dictionary from cell coordinates to the set of their peers) and
  \<^verbatim>\<open>n\<close> (the block size). A value that stands for a grid is either such an object
  or the Python value \<^verbatim>\<open>False\<close>, the contradiction marker.

  \<^item> Coordinates and digits are Python integers, hence \<open>int\<close>.
  \<^item> A candidate set is a finite set of integers.
  \<^item> \<^verbatim>\<open>cells\<close> is an association list: a Python dictionary keeps its keys in
    insertion order, and \<^verbatim>\<open>most_constrained\<close> depends on that order. Overwriting an
    existing key keeps its position, which is what \<open>AList.update\<close> does.
  \<^item> \<^verbatim>\<open>peers\<close> is only ever read; the set stored for a cell is given as the list in
    which the interpreter enumerates it, and a missing key is \<open>None\<close>.
  \<^item> \<^verbatim>\<open>eliminate\<close> overwrites \<^verbatim>\<open>grid.cells[cell]\<close> of the object it is given, so
    objects live in a store and are passed by reference; \<open>None\<close> is \<^verbatim>\<open>False\<close>.
  \<^item> A call returns the store it leaves behind together with either the exception it
    raised (\<open>Inl\<close>) or the value it returned (\<open>Inr\<close>).
  \<^item> \<^verbatim>\<open>eliminate\<close>, \<^verbatim>\<open>assign\<close>, \<^verbatim>\<open>solve_sudoku\<close> and \<^verbatim>\<open>parse_grid\<close> call each
    other, \<^verbatim>\<open>eliminate\<close> and \<^verbatim>\<open>solve_sudoku\<close> recursively, and the interpreter bounds
    the depth of nested calls. Each of them takes as its first argument the number of
    nested calls the interpreter still allows: with none left the call raises
    \<^verbatim>\<open>RecursionError\<close> before its body runs, and the calls its body makes get one less.
    Calls of the helpers (\<^verbatim>\<open>copy\<close>, \<^verbatim>\<open>solved\<close>, the strategies, built-ins) are not
    counted.
\<close>

datatype error =
    KeyError | AttributeError | ValueError | AssertionError | RecursionError | InvalidSize

type_synonym cell = "int \<times> int"

type_synonym digits = "int fset"

record sudoku =
  cells :: "(cell \<times> digits) list"
  peers :: "cell \<Rightarrow> cell list option"
  n :: int

type_synonym ref = nat

record heap =
  objs :: "ref \<Rightarrow> sudoku"
  next_ref :: ref

type_synonym 'a outcome = "heap \<times> (error + 'a)"

section \<open>Propagation: eliminate and assign\<close>

text \<open>\<^verbatim>\<open>grid.cells[cell] = new_digits\<close>: the assignment to the dictionary of object \<open>r\<close>.\<close>

definition set_cell :: "heap \<Rightarrow> ref \<Rightarrow> cell \<Rightarrow> digits \<Rightarrow> heap" where
  "set_cell h r c s =
     h\<lparr>objs := (objs h)(r := (objs h r)\<lparr>cells := AList.update c s (cells (objs h r))\<rparr>)\<rparr>"

text \<open>
  \<^verbatim>\<open>eliminate(grid, cell, digit)\<close>, lines 127 to 156. The loop over the peers is
  \<open>eliminate_peers\<close>: it rebinds \<^verbatim>\<open>grid\<close> to the result of every call, so after a
  contradiction the remaining peers are still visited, each call returning \<^verbatim>\<open>False\<close>
  at once. \<^verbatim>\<open>list(new_digits)[0]\<close> of a one-element set is its element. The calls
  of the loop are nested in the call that runs it, so they get its remaining depth \<open>k\<close>.
\<close>

fun eliminate :: "nat \<Rightarrow> heap \<Rightarrow> ref option \<Rightarrow> cell \<Rightarrow> int \<Rightarrow> ref option outcome"
  and eliminate_peers :: "nat \<Rightarrow> heap \<Rightarrow> ref option \<Rightarrow> cell list \<Rightarrow> int \<Rightarrow> ref option outcome"
where
  "eliminate 0 h g c d = (h, Inl RecursionError)"
| "eliminate (Suc k) h None c d = (h, Inr None)"
| "eliminate (Suc k) h (Some r) c d =
     (case map_of (cells (objs h r)) c of
        None \<Rightarrow> (h, Inl KeyError)
      | Some possible_digits \<Rightarrow>
          if d |\<notin>| possible_digits then (h, Inr (Some r))
          else
            let new_digits = possible_digits |-| {|d|};
                h' = set_cell h r c new_digits
            in if fcard new_digits = 0 then (h', Inr None)
               else if fcard new_digits = 1 then
                 (case peers (objs h' r) c of
                    None \<Rightarrow> (h', Inl KeyError)
                  | Some ps \<Rightarrow> eliminate_peers k h' (Some r) ps (fthe_elem new_digits))
               else (h', Inr (Some r)))"
| "eliminate_peers k h g [] d = (h, Inr g)"
| "eliminate_peers k h g (p # ps) d =
     (case eliminate k h g p d of
        (h', Inl e) \<Rightarrow> (h', Inl e)
      | (h', Inr g') \<Rightarrow> eliminate_peers k h' g' ps d)"

text \<open>
  Modelled from the spec: \<^verbatim>\<open>Sudoku.copy\<close> lives in \<^verbatim>\<open>sudoku_grid_util\<close>, which is not
  among the sources. The spec describes grids as copy-on-write values whose peer topology
  is shared and read-only: the copy is a new object holding the same candidate sets under
  the same keys, the same peers and the same block size.
\<close>

definition copy :: "heap \<Rightarrow> ref \<Rightarrow> heap \<times> ref" where
  "copy h r = (h\<lparr>objs := (objs h)(next_ref h := objs h r), next_ref := Suc (next_ref h)\<rparr>,
               next_ref h)"

text \<open>The loop \<^verbatim>\<open>for d in other_values: grid = eliminate(grid, cell, d)\<close> of \<^verbatim>\<open>assign\<close>.\<close>

fun eliminate_values :: "nat \<Rightarrow> heap \<Rightarrow> ref option \<Rightarrow> cell \<Rightarrow> int list \<Rightarrow> ref option outcome" where
  "eliminate_values k h g c [] = (h, Inr g)"
| "eliminate_values k h g c (d # ds) =
     (case eliminate k h g c d of
        (h', Inl e) \<Rightarrow> (h', Inl e)
      | (h', Inr g') \<Rightarrow> eliminate_values k h' g' c ds)"

text \<open>
  \<^verbatim>\<open>assign(grid, cell, digit)\<close>, lines 102 to 124. The first statement is
  \<^verbatim>\<open>grid = grid.copy()\<close>; \<^verbatim>\<open>False\<close> is a \<^verbatim>\<open>bool\<close> and has no attribute
  \<^verbatim>\<open>copy\<close>, so the call raises \<^verbatim>\<open>AttributeError\<close> before the test
  \<^verbatim>\<open>grid == False\<close> of line 118 is reached. After the copy \<^verbatim>\<open>grid\<close> is an object,
  so that test is never true. The interpreter's enumeration order of
  \<^verbatim>\<open>other_values\<close> is taken to be ascending.
\<close>

fun assign :: "nat \<Rightarrow> heap \<Rightarrow> ref option \<Rightarrow> cell \<Rightarrow> int \<Rightarrow> ref option outcome" where
  "assign 0 h grid c d = (h, Inl RecursionError)"
| "assign (Suc k) h grid c d =
     (case grid of
        None \<Rightarrow> (h, Inl AttributeError)
      | Some r \<Rightarrow>
          let (h1, r1) = copy h r in
          (case map_of (cells (objs h1 r1)) c of
             None \<Rightarrow> (h1, Inl KeyError)
           | Some cur_digits \<Rightarrow>
               let other_values = cur_digits |-| {|d|}
               in eliminate_values k h1 (Some r1) c (sorted_list_of_fset other_values)))"

section \<open>Search\<close>

text \<open>\<^verbatim>\<open>solved(grid)\<close>, line 201.\<close>

definition solved :: "sudoku \<Rightarrow> bool" where
  "solved g = list_all (\<lambda>kv. fcard (snd kv) = 1) (cells g)"

text \<open>
  \<^verbatim>\<open>solve_sudoku(grid, next_cell, order_choices)\<close>, lines 66 to 96, and its loop over
  the choices, \<open>try_choices\<close>. The two strategies read the grid and return a cell and a
  list of digits, or raise. The recursion is not bounded by the source: a strategy that
  keeps choosing the digit of a one-candidate cell makes it recurse until the interpreter
  gives up, which the depth argument models.
\<close>

fun solve_sudoku ::
    "nat \<Rightarrow> heap \<Rightarrow> ref option \<Rightarrow> (sudoku \<Rightarrow> error + cell) \<Rightarrow> (sudoku \<Rightarrow> cell \<Rightarrow> error + int list)
      \<Rightarrow> ref option outcome"
  and try_choices ::
    "nat \<Rightarrow> heap \<Rightarrow> ref \<Rightarrow> cell \<Rightarrow> int list \<Rightarrow> (sudoku \<Rightarrow> error + cell)
      \<Rightarrow> (sudoku \<Rightarrow> cell \<Rightarrow> error + int list) \<Rightarrow> ref option outcome"
where
  "solve_sudoku 0 h grid next_cell order_choices = (h, Inl RecursionError)"
| "solve_sudoku (Suc k) h None next_cell order_choices = (h, Inr None)"
| "solve_sudoku (Suc k) h (Some r) next_cell order_choices =
     (if solved (objs h r) then (h, Inr (Some r))
      else
        (case next_cell (objs h r) of
           Inl e \<Rightarrow> (h, Inl e)
         | Inr next_idx \<Rightarrow>
             (case order_choices (objs h r) next_idx of
                Inl e \<Rightarrow> (h, Inl e)
              | Inr choices \<Rightarrow> try_choices k h r next_idx choices next_cell order_choices)))"
| "try_choices k h r next_idx [] next_cell order_choices = (h, Inr None)"
| "try_choices k h r next_idx (choice # choices) next_cell order_choices =
     (case assign k h (Some r) next_idx choice of
        (h1, Inl e) \<Rightarrow> (h1, Inl e)
      | (h1, Inr new_grid) \<Rightarrow>
          (case solve_sudoku k h1 new_grid next_cell order_choices of
             (h2, Inl e) \<Rightarrow> (h2, Inl e)
           | (h2, Inr outcome) \<Rightarrow>
               if outcome \<noteq> None then (h2, Inr outcome)
               else try_choices k h2 r next_idx choices next_cell order_choices))"

section \<open>Selection strategies\<close>

text \<open>\<^verbatim>\<open>list.index(x)\<close>: the first position of \<open>x\<close>, if any.\<close>

fun index :: "'a list \<Rightarrow> 'a \<Rightarrow> nat option" where
  "index [] x = None"
| "index (y # ys) x = (if y = x then Some 0 else map_option Suc (index ys x))"

text \<open>
  \<^verbatim>\<open>most_constrained(grid)\<close> and \<^verbatim>\<open>least_constrained(grid)\<close>, lines 22 to 39.
  \<^verbatim>\<open>grid[0]\<close> is the dictionary \<^verbatim>\<open>cells\<close>; iterating over it enumerates its keys in
  insertion order, and \<^verbatim>\<open>d[key]\<close> of such a key is always present. \<^verbatim>\<open>min\<close> and
  \<^verbatim>\<open>max\<close> of an empty list raise \<^verbatim>\<open>ValueError\<close>, as does \<^verbatim>\<open>index\<close> of a value
  that is not in the list.
\<close>

definition key_list :: "(cell \<times> digits) list \<Rightarrow> cell list" where
  "key_list d = filter (\<lambda>key. 1 < fcard (the (map_of d key))) (map fst d)"

definition count_list :: "(cell \<times> digits) list \<Rightarrow> nat list" where
  "count_list d = map (\<lambda>k. fcard (the (map_of d k))) (key_list d)"

definition most_constrained :: "sudoku \<Rightarrow> error + cell" where
  "most_constrained grid =
     (let d = cells grid in
      if count_list d = [] then Inl ValueError
      else (case index (count_list d) (Min (set (count_list d))) of
              None \<Rightarrow> Inl ValueError
            | Some i \<Rightarrow> Inr (key_list d ! i)))"

definition least_constrained :: "sudoku \<Rightarrow> error + cell" where
  "least_constrained grid =
     (let d = cells grid in
      if count_list d = [] then Inl ValueError
      else (case index (count_list d) (Max (set (count_list d))) of
              None \<Rightarrow> Inl ValueError
            | Some i \<Rightarrow> Inr (key_list d ! i)))"

text \<open>\<^verbatim>\<open>ascending_order(grid, cell)\<close>, line 48: \<^verbatim>\<open>sorted(grid[0][cell])\<close>.\<close>

definition ascending_order :: "sudoku \<Rightarrow> cell \<Rightarrow> error + int list" where
  "ascending_order grid c =
     (case map_of (cells grid) c of
        None \<Rightarrow> Inl KeyError
      | Some s \<Rightarrow> Inr (sorted_list_of_fset s))"

section \<open>Grid construction\<close>

text \<open>
  Modelled from the spec: \<^verbatim>\<open>empty_grid\<close> lives in \<^verbatim>\<open>sudoku_grid_util\<close>, which is not
  among the sources. By the spec it fails with \<open>InvalidSize\<close> if the block size is below
  1, and otherwise returns a grid in which each of the \<open>n\<^sup>4\<close> cells, with 1-indexed
  coordinates, holds all digits from 1 to \<open>n\<^sup>2\<close>, and whose peers of a cell are the cells
  sharing its row, its column or its block, the cell itself excluded. Cells are
  enumerated in row-major order.
\<close>

definition coords :: "int \<Rightarrow> cell list" where
  "coords m = concat (map (\<lambda>r. map (\<lambda>c. (r, c)) [1..m * m]) [1..m * m])"

definition is_peer :: "int \<Rightarrow> cell \<Rightarrow> cell \<Rightarrow> bool" where
  "is_peer m a b \<longleftrightarrow>
     a \<noteq> b \<and>
     (fst a = fst b \<or> snd a = snd b \<or>
      ((fst a - 1) div m = (fst b - 1) div m \<and> (snd a - 1) div m = (snd b - 1) div m))"

definition empty_sudoku :: "int \<Rightarrow> sudoku" where
  "empty_sudoku m =
     \<lparr>cells = map (\<lambda>c. (c, fset_of_list [1..m * m])) (coords m),
      peers = (\<lambda>c. if c \<in> set (coords m) then Some (filter (is_peer m c) (coords m)) else None),
      n = m\<rparr>"

definition empty_grid :: "heap \<Rightarrow> int \<Rightarrow> ref outcome" where
  "empty_grid h m =
     (if m < 1 then (h, Inl InvalidSize)
      else (h\<lparr>objs := (objs h)(next_ref h := empty_sudoku m), next_ref := Suc (next_ref h)\<rparr>,
            Inr (next_ref h)))"

text \<open>
  \<^verbatim>\<open>parse_grid(grid_rows)\<close>, lines 203 to 224. A row is a list of optional digits,
  \<open>None\<close> for a blank. \<^verbatim>\<open>int(math.sqrt(len(grid_rows)))\<close> is the integer square root
  of the number of rows (the floating-point root is exact on every length a list can
  have in practice). The two nested loops call \<^verbatim>\<open>assign\<close> on whatever the previous
  call returned.
\<close>

definition isqrt :: "nat \<Rightarrow> nat" where
  "isqrt m = length (filter (\<lambda>k. k * k \<le> m) [1..<Suc m])"

fun parse_cols ::
    "nat \<Rightarrow> heap \<Rightarrow> ref option \<Rightarrow> int \<Rightarrow> int \<Rightarrow> int option list \<Rightarrow> ref option outcome" where
  "parse_cols k h g row col [] = (h, Inr g)"
| "parse_cols k h g row col (None # vals) = parse_cols k h g row (col + 1) vals"
| "parse_cols k h g row col (Some val # vals) =
     (case assign k h g (row, col) val of
        (h', Inl e) \<Rightarrow> (h', Inl e)
      | (h', Inr g') \<Rightarrow> parse_cols k h' g' row (col + 1) vals)"

fun parse_rows ::
    "nat \<Rightarrow> heap \<Rightarrow> ref option \<Rightarrow> int \<Rightarrow> int option list list \<Rightarrow> ref option outcome" where
  "parse_rows k h g row [] = (h, Inr g)"
| "parse_rows k h g row (cols # rest) =
     (case parse_cols k h g row 1 cols of
        (h', Inl e) \<Rightarrow> (h', Inl e)
      | (h', Inr g') \<Rightarrow> parse_rows k h' g' (row + 1) rest)"

fun parse_grid :: "nat \<Rightarrow> heap \<Rightarrow> int option list list \<Rightarrow> ref option outcome" where
  "parse_grid 0 h grid_rows = (h, Inl RecursionError)"
| "parse_grid (Suc k) h grid_rows =
     (let m = int (isqrt (length grid_rows)) in
      if m * m \<noteq> int (length grid_rows) then (h, Inl AssertionError)
      else (case empty_grid h m of
              (h', Inl e) \<Rightarrow> (h', Inl e)
            | (h', Inr new_grid) \<Rightarrow> parse_rows k h' (Some new_grid) 1 grid_rows))"

section \<open>Notions used in the statements\<close>

text \<open>
  The keys of the dictionary \<^verbatim>\<open>cells\<close>. A grid is \<open>closed\<close> when \<^verbatim>\<open>peers\<close> has an
  entry for each of its cells and every peer is a cell of the grid, as in the grids the
  constructor builds; \<open>nonempty\<close> when no cell has the empty candidate set, the invariant
  of a valid grid; \<open>len_at\<close> is \<^verbatim>\<open>len(d[key])\<close>.
\<close>

definition keys :: "sudoku \<Rightarrow> cell set" where
  "keys g = fst ` set (cells g)"


definition nonempty :: "sudoku \<Rightarrow> bool" where
  "nonempty g \<longleftrightarrow> (\<forall>c. map_of (cells g) c \<noteq> Some {||})"

definition len_at :: "sudoku \<Rightarrow> cell \<Rightarrow> nat" where
  "len_at g k = fcard (the (map_of (cells g) k))"


text \<open>
  \<open>shrinks g g'\<close>: the grid \<open>g'\<close> has the peers, the block size and the keys of \<open>g\<close>, and
  each of its candidate sets is a subset of the set \<open>g\<close> has for that cell.
  \<open>no_new_empty g g'\<close>: a cell that is empty in \<open>g'\<close> is empty in \<open>g\<close>.
\<close>

definition shrinks :: "sudoku \<Rightarrow> sudoku \<Rightarrow> bool" where
  "shrinks g g' \<longleftrightarrow>
     peers g' = peers g \<and> n g' = n g \<and> map fst (cells g') = map fst (cells g) \<and>
     (\<forall>c s'. map_of (cells g') c = Some s' \<longrightarrow> (\<exists>s. map_of (cells g) c = Some s \<and> s' |\<subseteq>| s))"

definition no_new_empty :: "sudoku \<Rightarrow> sudoku \<Rightarrow> bool" where
  "no_new_empty g g' \<longleftrightarrow>
     (\<forall>c. map_of (cells g') c = Some {||} \<longrightarrow> map_of (cells g) c = Some {||})"

text \<open>
  A sequence of calls on a grid lineage: every call is made on the grid the previous one
  returned, as the loops of the source do, all at the same depth.
\<close>

datatype call = Eliminate cell int | Assign cell int

fun apply_calls :: "nat \<Rightarrow> heap \<Rightarrow> ref option \<Rightarrow> call list \<Rightarrow> ref option outcome" where
  "apply_calls k h g [] = (h, Inr g)"
| "apply_calls k h g (Eliminate c d # calls) =
     (case eliminate k h g c d of
        (h', Inl e) \<Rightarrow> (h', Inl e)
      | (h', Inr g') \<Rightarrow> apply_calls k h' g' calls)"
| "apply_calls k h g (Assign c d # calls) =
     (case assign k h g c d of
        (h', Inl e) \<Rightarrow> (h', Inl e)
      | (h', Inr g') \<Rightarrow> apply_calls k h' g' calls)"

text \<open>\<^verbatim>\<open>eliminate(eliminate(grid, cell, digit), cell, digit)\<close>.\<close>

definition eliminate_twice :: "nat \<Rightarrow> heap \<Rightarrow> ref option \<Rightarrow> cell \<Rightarrow> int \<Rightarrow> ref option outcome" where
  "eliminate_twice k h g c d =
     (case eliminate k h g c d of
        (h', Inl e) \<Rightarrow> (h', Inl e)
      | (h', Inr g') \<Rightarrow> eliminate k h' g' c d)"

text \<open>
  One trial of \<^verbatim>\<open>solve_sudoku\<close>: \<^verbatim>\<open>assign\<close> the value, then recurse on the result.
\<close>

definition trial ::
    "nat \<Rightarrow> heap \<Rightarrow> ref \<Rightarrow> cell \<Rightarrow> int \<Rightarrow> (sudoku \<Rightarrow> error + cell)
      \<Rightarrow> (sudoku \<Rightarrow> cell \<Rightarrow> error + int list) \<Rightarrow> ref option outcome" where
  "trial k h r next_idx v next_cell order_choices =
     (case assign k h (Some r) next_idx v of
        (h1, Inl e) \<Rightarrow> (h1, Inl e)
      | (h1, Inr new_grid) \<Rightarrow> solve_sudoku k h1 new_grid next_cell order_choices)"

text \<open>
  The search as the spec words it: try each value in order and return the first result
  that is not the failure marker; if all trials fail, return the failure marker.
  \<open>trial_results\<close> lists what each trial gives when all of them are run in order.
\<close>

fun first_success :: "(heap \<Rightarrow> 'a \<Rightarrow> ref option outcome) \<Rightarrow> heap \<Rightarrow> 'a list \<Rightarrow> ref option outcome" where
  "first_success f h [] = (h, Inr None)"
| "first_success f h (v # vs) =
     (let (h', res) = f h v in if res = Inr None then first_success f h' vs else (h', res))"

fun trial_results :: "(heap \<Rightarrow> 'a \<Rightarrow> ref option outcome) \<Rightarrow> heap \<Rightarrow> 'a list \<Rightarrow> (error + ref option) list" where
  "trial_results f h [] = []"
| "trial_results f h (v # vs) = (let (h', res) = f h v in res # trial_results f h' vs)"

section \<open>Example stores and inputs\<close>

text \<open>
  \<open>store0\<close> is the store before anything is allocated; \<open>store4\<close> holds, as object 0, the empty
  grid of block size 2 (a 4 by 4 puzzle).
\<close>

definition store0 :: heap where
  "store0 = \<lparr>objs = (\<lambda>_. \<lparr>cells = [], peers = (\<lambda>_. None), n = 0\<rparr>), next_ref = 0\<rparr>"

definition store4 :: heap where
  "store4 = fst (empty_grid store0 2)"

text \<open>
  \<open>store1\<close> holds the empty grid of block size 1, which is solved. \<open>store_stuck\<close> is a row of three
  cells in which either value of the first cell contradicts a neighbour.
\<close>

definition store1 :: heap where
  "store1 = fst (empty_grid store0 1)"

definition store_stuck :: heap where
  "store_stuck = \<lparr>objs = (\<lambda>_. \<lparr>cells = [((1, 1), {|1, 2|}), ((1, 2), {|1|}), ((1, 3), {|2|})],
                          peers = map_of [((1, 1), [(1, 2), (1, 3)]), ((1, 2), [(1, 1), (1, 3)]),
                                          ((1, 3), [(1, 1), (1, 2)])],
                          n = 0\<rparr>),
            next_ref = 1\<rparr>"

text \<open>
  Grids reached from \<open>store4\<close> with 1000 nested calls allowed, the interpreter's default
  limit. In \<open>store_three\<close> object 1 is the grid after assigning 3 to the first cell;
  \<open>store_emptied\<close> is that store after eliminating 3 from that cell of object 1, which
  returns the contradiction marker. In \<open>store_row\<close> object 2 is the grid after assigning
  1 and 2 to the first two cells of the first row and eliminating 1 and 2 from the last
  cell of the second row.
\<close>

definition store_three :: heap where
  "store_three = fst (assign 1000 store4 (Some 0) (1, 1) 3)"

definition store_emptied :: heap where
  "store_emptied = fst (eliminate 1000 store_three (Some 1) (1, 1) 3)"

definition row_calls :: "call list" where
  "row_calls = [Assign (1, 1) 1, Assign (1, 2) 2, Eliminate (2, 4) 1, Eliminate (2, 4) 2]"

definition store_row :: heap where
  "store_row = fst (apply_calls 1000 store4 (Some 0) row_calls)"

text \<open>
  A 9 by 9 puzzle whose first row starts with two fives and has one more digit at its
  end, and the same puzzle without that last digit.
\<close>

definition conflict_then_more :: "int option list list" where
  "conflict_then_more =
     [Some 5, Some 5, None, None, None, None, None, None, Some 1] # replicate 8 (replicate 9 None)"

definition conflict_last :: "int option list list" where
  "conflict_last =
     [Some 5, Some 5, None, None, None, None, None, None, None] # replicate 8 (replicate 9 None)"

section \<open>Notions used in the proofs\<close>



definition evolves :: "heap \<Rightarrow> ref option \<Rightarrow> ref option outcome \<Rightarrow> bool" where
  "evolves h g out \<longleftrightarrow>
     next_ref (fst out) = next_ref h \<and>
     (\<forall>r. g \<noteq> Some r \<longrightarrow> objs (fst out) r = objs h r) \<and>
     (\<forall>r. shrinks (objs h r) (objs (fst out) r)) \<and>
     (\<forall>g'. snd out = Inr g' \<longrightarrow> g' = None \<or> g' = g)"


section \<open>What a call does to the store\<close>

lemma shrinks_refl: "shrinks g g"
  by (simp add: shrinks_def)

lemma shrinks_trans: "shrinks a b \<Longrightarrow> shrinks b c \<Longrightarrow> shrinks a c"
  unfolding shrinks_def by (metis fsubset_trans)

lemma map_fst_update: "map_of al c = Some s \<Longrightarrow> map fst (AList.update c s' al) = map fst al"
  by (induction al) auto

lemma shrinks_set_cell:
  assumes "map_of (cells (objs h r)) c = Some s" "s' |\<subseteq>| s"
  shows "shrinks (objs h r) (objs (set_cell h r c s') r)"
  using assms by (auto simp: shrinks_def set_cell_def map_fst_update update_conv')

lemma evolves_refl: "evolves h g (h, Inr g)"
  by (simp add: evolves_def shrinks_refl)

lemma evolves_raise: "evolves h g (h, Inl e)"
  by (simp add: evolves_def shrinks_refl)

lemma evolves_set_cell:
  assumes "map_of (cells (objs h r)) c = Some s" "s' |\<subseteq>| s"
    "res = Inl e \<or> res = Inr None \<or> res = Inr (Some r)"
  shows "evolves h (Some r) (set_cell h r c s', res)"
proof -
  have "shrinks (objs h r') (objs (set_cell h r c s') r')" for r'
  proof (cases "r' = r")
    case True then show ?thesis using shrinks_set_cell[OF assms(1,2)] by simp
  next
    case False then show ?thesis by (simp add: set_cell_def shrinks_refl)
  qed
  then show ?thesis using assms(3) by (auto simp: evolves_def set_cell_def)
qed

lemma evolves_trans:
  assumes "evolves h g (h1, Inr g1)" "evolves h1 g1 out"
  shows "evolves h g out"
proof -
  have g1: "g1 = None \<or> g1 = g" using assms(1) by (simp add: evolves_def)
  have "shrinks (objs h r) (objs (fst out) r)" for r
    using assms shrinks_trans[of "objs h r" "objs h1 r" "objs (fst out) r"] by (simp add: evolves_def)
  moreover have "g \<noteq> Some r \<Longrightarrow> objs (fst out) r = objs h r" for r
    using assms g1 by (auto simp: evolves_def)
  moreover have "snd out = Inr g' \<Longrightarrow> g' = None \<or> g' = g" for g'
    using assms g1 by (auto simp: evolves_def)
  ultimately show ?thesis using assms by (simp add: evolves_def)
qed

lemma evolves_result:
  "evolves h g out \<Longrightarrow> snd out = Inr (Some r) \<Longrightarrow> g = Some r"
  by (auto simp: evolves_def)

lemma evolves_shrinks: "evolves h g out \<Longrightarrow> shrinks (objs h r) (objs (fst out) r)"
  by (simp add: evolves_def)

lemma evolves_None: "evolves h g (h', Inr g') \<Longrightarrow> g' = None \<or> g' = g"
  by (simp add: evolves_def)

text \<open>The branches of \<open>eliminate\<close>, one lemma each.\<close>

lemma eliminate_absent:
  "map_of (cells (objs h r)) c = None \<Longrightarrow> eliminate (Suc k) h (Some r) c d = (h, Inl KeyError)"
  by simp

lemma eliminate_noop:
  "map_of (cells (objs h r)) c = Some s \<Longrightarrow> d |\<notin>| s \<Longrightarrow>
     eliminate (Suc k) h (Some r) c d = (h, Inr (Some r))"
  by simp

lemma eliminate_hit:
  assumes "map_of (cells (objs h r)) c = Some s" "d |\<in>| s" "s |-| {|d|} = new"
  shows "eliminate (Suc k) h (Some r) c d =
     (if fcard new = 0 then (set_cell h r c new, Inr None)
      else if fcard new = 1 then
        (case peers (objs (set_cell h r c new) r) c of
           None \<Rightarrow> (set_cell h r c new, Inl KeyError)
         | Some ps \<Rightarrow> eliminate_peers k (set_cell h r c new) (Some r) ps (fthe_elem new))
      else (set_cell h r c new, Inr (Some r)))"
  using assms by (simp add: Let_def)

declare eliminate.simps(3) [simp del]

lemma eliminate_returned: "snd (eliminate k h g c d) = Inr g' \<Longrightarrow> \<exists>k'. k = Suc k'"
  by (cases k) auto

lemma eliminate_peers_None: "eliminate_peers (Suc k) h None ps d = (h, Inr None)"
  by (induction ps) auto

lemma eliminate_evolves:
  "evolves h g (eliminate k h g c d)"
  "evolves h g (eliminate_peers k h g ps d)"
proof (induction k h g c d and k h g ps d rule: eliminate_eliminate_peers.induct)
  case (1 h g c d)
  show ?case by (simp add: evolves_raise)
next
  case (2 k h c d)
  show ?case by (simp add: evolves_refl)
next
  case (3 k h r c d)
  show ?case
  proof (cases "map_of (cells (objs h r)) c")
    case None
    then show ?thesis by (simp add: eliminate_absent evolves_raise)
  next
    case (Some s)
    show ?thesis
    proof (cases "d |\<in>| s")
      case False
      then show ?thesis using Some by (simp add: eliminate_noop evolves_refl)
    next
      case True
      define new where "new = s |-| {|d|}"
      define h1 where "h1 = set_cell h r c new"
      have sub: "new |\<subseteq>| s" by (auto simp: new_def)
      note hit = eliminate_hit[OF Some True new_def[symmetric], folded h1_def]
      note step = evolves_set_cell[OF Some sub, folded h1_def]
      show ?thesis
      proof (cases "fcard new = 0")
        case True
        then show ?thesis using hit step[of "Inr None"] by simp
      next
        case nz: False
        show ?thesis
        proof (cases "fcard new = 1")
          case False
          then show ?thesis using hit nz step[of "Inr (Some r)"] by simp
        next
          case one: True
          show ?thesis
          proof (cases "peers (objs h1 r) c")
            case None
            then show ?thesis using hit nz one step[of "Inl KeyError"] by simp
          next
            case ps: (Some ps)
            have "evolves h1 (Some r) (eliminate_peers k h1 (Some r) ps (fthe_elem new))"
              using 3[OF Some _ new_def h1_def nz one ps] True by simp
            then have "evolves h (Some r) (eliminate_peers k h1 (Some r) ps (fthe_elem new))"
              using evolves_trans[OF step[of "Inr (Some r)"]] by simp
            then show ?thesis using hit nz one ps by simp
          qed
        qed
      qed
    qed
  qed
next
  case (4 k h g d)
  show ?case by (simp add: evolves_refl)
next
  case (5 k h g p ps d)
  show ?case
  proof (cases "eliminate k h g p d")
    case (Pair h' res)
    show ?thesis
    proof (cases res)
      case (Inl e)
      then show ?thesis using 5(1) Pair by simp
    next
      case (Inr g')
      have "evolves h' g' (eliminate_peers k h' g' ps d)" using 5(2)[OF Pair[symmetric] Inr] .
      moreover have "evolves h g (h', Inr g')" using 5(1) Pair Inr by simp
      ultimately show ?thesis using Pair Inr evolves_trans by simp
    qed
  qed
qed

subsection \<open>A call never makes the grid heavier\<close>







subsection \<open>A cell is emptied only by a call that returns the contradiction marker\<close>

lemma no_new_empty_refl: "no_new_empty g g"
  by (simp add: no_new_empty_def)

lemma no_new_empty_trans: "no_new_empty a b \<Longrightarrow> no_new_empty b c \<Longrightarrow> no_new_empty a c"
  by (simp add: no_new_empty_def)

lemma no_new_empty_set_cell:
  "s \<noteq> {||} \<Longrightarrow> no_new_empty (objs h r') (objs (set_cell h r c s) r')"
  by (auto simp: no_new_empty_def set_cell_def update_conv')

lemma eliminate_no_new_empty:
  "snd (eliminate k h g c d) \<noteq> Inr None \<Longrightarrow>
     no_new_empty (objs h r) (objs (fst (eliminate k h g c d)) r)"
  "snd (eliminate_peers k h g ps d) \<noteq> Inr None \<Longrightarrow>
     no_new_empty (objs h r) (objs (fst (eliminate_peers k h g ps d)) r)"
proof (induction k h g c d and k h g ps d arbitrary: r and r rule: eliminate_eliminate_peers.induct)
  case (1 h g c d)
  show ?case by (simp add: no_new_empty_refl)
next
  case (2 k h c d)
  show ?case by (simp add: no_new_empty_refl)
next
  case (3 k h r0 c d)
  show ?case
  proof (cases "map_of (cells (objs h r0)) c")
    case None
    then show ?thesis by (simp add: eliminate_absent no_new_empty_refl)
  next
    case (Some s)
    show ?thesis
    proof (cases "d |\<in>| s")
      case False
      then show ?thesis using Some by (simp add: eliminate_noop no_new_empty_refl)
    next
      case True
      define new where "new = s |-| {|d|}"
      define h1 where "h1 = set_cell h r0 c new"
      note hit = eliminate_hit[OF Some True new_def[symmetric], folded h1_def]
      show ?thesis
      proof (cases "fcard new = 0")
        case True
        then show ?thesis using hit 3(2) by simp
      next
        case nz: False
        then have ne: "new \<noteq> {||}" by auto
        have step: "no_new_empty (objs h r) (objs h1 r)"
          unfolding h1_def using ne by (rule no_new_empty_set_cell)
        show ?thesis
        proof (cases "fcard new = 1")
          case False
          then show ?thesis using hit nz step by simp
        next
          case one: True
          show ?thesis
          proof (cases "peers (objs h1 r0) c")
            case None
            then show ?thesis using hit nz one step by simp
          next
            case ps: (Some ps)
            have eq: "eliminate (Suc k) h (Some r0) c d
                = eliminate_peers k h1 (Some r0) ps (fthe_elem new)"
              using hit nz one ps by simp
            have "no_new_empty (objs h1 r)
                    (objs (fst (eliminate_peers k h1 (Some r0) ps (fthe_elem new))) r)"
              using 3(1)[OF Some _ new_def h1_def nz one ps, of r] True 3(2) eq by simp
            then show ?thesis using step eq no_new_empty_trans by auto
          qed
        qed
      qed
    qed
  qed
next
  case (4 k h g d)
  show ?case by (simp add: no_new_empty_refl)
next
  case (5 k h g p ps d)
  show ?case
  proof (cases "eliminate k h g p d")
    case (Pair h' res)
    show ?thesis
    proof (cases res)
      case (Inl e)
      then show ?thesis using 5(1)[of r] Pair by simp
    next
      case (Inr g')
      have eq: "eliminate_peers k h g (p # ps) d = eliminate_peers k h' g' ps d"
        using Pair Inr by simp
      obtain k' where k: "k = Suc k'" using eliminate_returned[of k h g p d g'] Pair Inr by auto
      have g': "g' \<noteq> None"
      proof
        assume "g' = None"
        then show False using 5(3) eq k by (simp add: eliminate_peers_None)
      qed
      have a: "no_new_empty (objs h r) (objs h' r)"
        using 5(1)[of r] Pair Inr g' by simp
      have b: "no_new_empty (objs h' r) (objs (fst (eliminate_peers k h' g' ps d)) r)"
        using 5(2)[OF Pair[symmetric] Inr, of r] 5(3) eq by simp
      show ?thesis using a b eq no_new_empty_trans by auto
    qed
  qed
qed

lemma no_new_empty_nonempty: "no_new_empty g g' \<Longrightarrow> nonempty g \<Longrightarrow> nonempty g'"
  unfolding no_new_empty_def nonempty_def by blast

subsection \<open>On a closed grid, with depth above its weight, nothing is raised\<close>

lemma keys_map_of: "c \<in> keys g \<longleftrightarrow> map_of (cells g) c \<noteq> None"
  by (simp add: keys_def map_of_eq_None_iff)

lemma shrinks_keys: "shrinks g g' \<Longrightarrow> keys g' = keys g"
  unfolding shrinks_def keys_def by (metis set_map)





subsection \<open>What a call of eliminate removes\<close>

lemma map_of_set_cell: "map_of (cells (objs (set_cell h r c s) r)) c = Some s"
  by (simp add: set_cell_def update_conv')

lemma shrinks_lookup:
  assumes "shrinks g g'" "map_of (cells g) c = Some s"
  shows "\<exists>s'. map_of (cells g') c = Some s' \<and> s' |\<subseteq>| s"
proof -
  have "c \<in> keys g'" using assms shrinks_keys[OF assms(1)] by (simp add: keys_map_of)
  then obtain s' where s': "map_of (cells g') c = Some s'" by (auto simp: keys_map_of)
  then have "\<exists>s0. map_of (cells g) c = Some s0 \<and> s' |\<subseteq>| s0"
    using assms(1) unfolding shrinks_def by blast
  then show ?thesis using s' assms(2) by auto
qed

lemma eliminate_after_hit:
  assumes "map_of (cells (objs h r)) c = Some s" "d |\<in>| s"
  shows "shrinks (objs (set_cell h r c (s |-| {|d|})) r)
           (objs (fst (eliminate (Suc k) h (Some r) c d)) r)"
proof -
  define new where "new = s |-| {|d|}"
  define h1 where "h1 = set_cell h r c new"
  note hit = eliminate_hit[OF assms new_def[symmetric], folded h1_def]
  have "shrinks (objs h1 r) (objs (fst (eliminate_peers k h1 (Some r) ps x)) r)" for ps x
    using evolves_shrinks[OF eliminate_evolves(2)] .
  then have "shrinks (objs h1 r) (objs (fst (eliminate (Suc k) h (Some r) c d)) r)"
    unfolding hit by (auto simp: shrinks_refl split: option.splits)
  then show ?thesis by (simp add: h1_def new_def)
qed

lemma eliminate_removes:
  assumes "snd (eliminate k h g c d) = Inr (Some r)"
  shows "\<exists>s. map_of (cells (objs (fst (eliminate k h g c d)) r)) c = Some s \<and> d |\<notin>| s"
proof -
  have g: "g = Some r" using evolves_result[OF eliminate_evolves(1) assms] .
  obtain k' where k: "k = Suc k'" using eliminate_returned[OF assms] by blast
  show ?thesis
  proof (cases "map_of (cells (objs h r)) c")
    case None
    then show ?thesis using assms g k by (simp add: eliminate_absent)
  next
    case (Some s)
    show ?thesis
    proof (cases "d |\<in>| s")
      case False
      then show ?thesis using Some g k by (simp add: eliminate_noop)
    next
      case True
      have "map_of (cells (objs (set_cell h r c (s |-| {|d|})) r)) c = Some (s |-| {|d|})"
        by (rule map_of_set_cell)
      from shrinks_lookup[OF eliminate_after_hit[OF Some True] this]
      show ?thesis using g k by auto
    qed
  qed
qed

subsection \<open>The loop of assign\<close>

lemma eliminate_values_None: "eliminate_values (Suc k) h None c ds = (h, Inr None)"
  by (induction ds) auto

lemma eliminate_values_evolves: "evolves h g (eliminate_values k h g c ds)"
proof (induction ds arbitrary: h g)
  case Nil
  show ?case by (simp add: evolves_refl)
next
  case (Cons d ds)
  show ?case
  proof (cases "eliminate k h g c d")
    case (Pair h' res)
    have ev: "evolves h g (h', res)" using eliminate_evolves(1)[of h g k c d] Pair by simp
    show ?thesis
    proof (cases res)
      case (Inl e)
      then show ?thesis using ev Pair by simp
    next
      case (Inr g')
      then show ?thesis using ev Pair Cons[of h' g'] evolves_trans by simp
    qed
  qed
qed


lemma eliminate_values_no_new_empty:
  "snd (eliminate_values k h g c ds) \<noteq> Inr None \<Longrightarrow>
     no_new_empty (objs h r) (objs (fst (eliminate_values k h g c ds)) r)"
proof (induction ds arbitrary: h g)
  case Nil
  show ?case by (simp add: no_new_empty_refl)
next
  case (Cons d ds)
  show ?case
  proof (cases "eliminate k h g c d")
    case (Pair h' res)
    show ?thesis
    proof (cases res)
      case (Inl e)
      then show ?thesis using eliminate_no_new_empty(1)[of k h g c d r] Pair by simp
    next
      case (Inr g')
      have eq: "eliminate_values k h g c (d # ds) = eliminate_values k h' g' c ds"
        using Pair Inr by simp
      obtain k' where k: "k = Suc k'" using eliminate_returned[of k h g c d g'] Pair Inr by auto
      have g': "g' \<noteq> None"
      proof
        assume "g' = None"
        then show False using Cons(2) eq k by (simp add: eliminate_values_None)
      qed
      have a: "no_new_empty (objs h r) (objs h' r)"
        using eliminate_no_new_empty(1)[of k h g c d r] Pair Inr g' by simp
      have b: "no_new_empty (objs h' r) (objs (fst (eliminate_values k h' g' c ds)) r)"
        using Cons(1)[of h' g'] Cons(2) eq by simp
      show ?thesis using a b eq no_new_empty_trans by auto
    qed
  qed
qed


subsection \<open>assign\<close>

lemma assign_Some:
  "assign (Suc k) h (Some r) c d =
     (case map_of (cells (objs h r)) c of
        None \<Rightarrow> (fst (copy h r), Inl KeyError)
      | Some cur_digits \<Rightarrow>
          eliminate_values k (fst (copy h r)) (Some (next_ref h)) c
            (sorted_list_of_fset (cur_digits |-| {|d|})))"
  by (simp add: copy_def Let_def split: option.splits)

lemma assign_None: "assign (Suc k) h None c d = (h, Inl AttributeError)"
  by simp

declare assign.simps(2) [simp del]

lemma copy_objs:
  "objs (fst (copy h r)) r' = (if r' = next_ref h then objs h r else objs h r')"
  by (simp add: copy_def)

lemma assign_frame:
  assumes "r' < next_ref h"
  shows "objs (fst (assign k h g c d)) r' = objs h r'"
proof (cases k)
  case 0
  then show ?thesis by simp
next
  case (Suc k')
  show ?thesis
  proof (cases g)
    case None
    then show ?thesis using Suc by (simp add: assign_None)
  next
    case (Some r)
    have ne: "Some (next_ref h) \<noteq> Some r'" using assms by simp
    have c: "objs (fst (copy h r)) r' = objs h r'" using assms by (simp add: copy_objs)
    show ?thesis
    proof (cases "map_of (cells (objs h r)) c")
      case None
      then show ?thesis using Some Suc c by (simp add: assign_Some)
    next
      case cur: (Some cur)
      have "evolves (fst (copy h r)) (Some (next_ref h))
              (eliminate_values k' (fst (copy h r)) (Some (next_ref h)) c
                 (sorted_list_of_fset (cur |-| {|d|})))"
        by (rule eliminate_values_evolves)
      then have "objs (fst (eliminate_values k' (fst (copy h r)) (Some (next_ref h)) c
                    (sorted_list_of_fset (cur |-| {|d|})))) r' = objs (fst (copy h r)) r'"
        using ne unfolding evolves_def by blast
      then show ?thesis using Some Suc cur c by (simp add: assign_Some)
    qed
  qed
qed

lemma assign_returned:
  assumes "snd (assign k h g c d) = Inr (Some r')"
  shows "\<exists>k' r cur. k = Suc k' \<and> g = Some r \<and> map_of (cells (objs h r)) c = Some cur \<and>
           assign k h g c d = eliminate_values k' (fst (copy h r)) (Some (next_ref h)) c
                                (sorted_list_of_fset (cur |-| {|d|})) \<and>
           r' = next_ref h"
proof -
  obtain k' where k: "k = Suc k'" using assms by (cases k) auto
  obtain r where r: "g = Some r" using assms k by (cases g) (auto simp: assign_None)
  obtain cur where cur: "map_of (cells (objs h r)) c = Some cur"
    using assms k r by (cases "map_of (cells (objs h r)) c") (auto simp: assign_Some)
  have eq: "assign k h g c d = eliminate_values k' (fst (copy h r)) (Some (next_ref h)) c
                                (sorted_list_of_fset (cur |-| {|d|}))"
    using k r cur by (simp add: assign_Some)
  have "snd (eliminate_values k' (fst (copy h r)) (Some (next_ref h)) c
               (sorted_list_of_fset (cur |-| {|d|}))) = Inr (Some r')"
    using assms eq by simp
  from evolves_result[OF eliminate_values_evolves this] have "r' = next_ref h" by simp
  then show ?thesis using k r cur eq by blast
qed

lemma assign_shrinks:
  assumes "snd (assign k h (Some r) c d) = Inr (Some r')"
  shows "shrinks (objs h r) (objs (fst (assign k h (Some r) c d)) r')"
proof -
  obtain k' cur where eq: "assign k h (Some r) c d
      = eliminate_values k' (fst (copy h r)) (Some (next_ref h)) c (sorted_list_of_fset (cur |-| {|d|}))"
    and r': "r' = next_ref h"
    using assign_returned[OF assms] by auto
  have "shrinks (objs (fst (copy h r)) r')
          (objs (fst (eliminate_values k' (fst (copy h r)) (Some (next_ref h)) c
             (sorted_list_of_fset (cur |-| {|d|})))) r')"
    using evolves_shrinks[OF eliminate_values_evolves] .
  then show ?thesis using eq r' by (simp add: copy_objs)
qed

lemma assign_no_new_empty:
  assumes "snd (assign (Suc k) h (Some r) c d) \<noteq> Inr None"
  shows "no_new_empty (objs h r) (objs (fst (assign (Suc k) h (Some r) c d)) (next_ref h))"
proof (cases "map_of (cells (objs h r)) c")
  case None
  then show ?thesis by (simp add: assign_Some copy_objs no_new_empty_refl)
next
  case (Some cur)
  let ?out = "eliminate_values k (fst (copy h r)) (Some (next_ref h)) c
                (sorted_list_of_fset (cur |-| {|d|}))"
  have eq: "assign (Suc k) h (Some r) c d = ?out" using Some by (simp add: assign_Some)
  then have "snd ?out \<noteq> Inr None" using assms by simp
  from eliminate_values_no_new_empty[OF this, of "next_ref h"]
  show ?thesis using eq by (simp add: copy_objs)
qed


section \<open>Claims about the propagation\<close>



lemma nonempty_empty_sudoku: "1 \<le> m \<Longrightarrow> nonempty (empty_sudoku m)"
proof -
  assume m: "1 \<le> m"
  then have "1 \<le> m * m" using mult_mono[of 1 m 1 m] by simp
  then have ne: "fset_of_list [1..m * m] \<noteq> {||}"
    by (metis bot_fset.rep_eq empty_iff fset_of_list.rep_eq set_upto atLeastAtMost_iff order_refl)
  have "map_of (map (\<lambda>c. (c, S)) cs) c = Some s \<Longrightarrow> s = S" for cs c and s S :: digits
    by (induction cs) (auto split: if_splits)
  then show ?thesis using ne unfolding nonempty_def empty_sudoku_def by fastforce
qed

lemma objs_store4: "objs store4 0 = empty_sudoku 2" "next_ref store4 = 1"
  by (simp_all add: store4_def store0_def empty_grid_def)

lemma empty_cell_not_nonempty: "map_of (cells g) c = Some {||} \<Longrightarrow> \<not> nonempty g"
  unfolding nonempty_def by blast

lemma apply_calls_Assign:
  "snd (assign k h g c d) = Inr g' \<Longrightarrow>
     apply_calls k h g (Assign c d # calls) = apply_calls k (fst (assign k h g c d)) g' calls"
  by (cases "assign k h g c d") auto

lemma apply_calls_Eliminate:
  "snd (eliminate k h g c d) = Inr g' \<Longrightarrow>
     apply_calls k h g (Eliminate c d # calls) = apply_calls k (fst (eliminate k h g c d)) g' calls"
  by (cases "eliminate k h g c d") auto

text \<open>
  C1. The contradiction marker passes through \<^verbatim>\<open>eliminate\<close> and \<^verbatim>\<open>solve_sudoku\<close>:
  each returns it at once and leaves the store alone. \<^verbatim>\<open>assign\<close> does not: its first
  statement calls \<^verbatim>\<open>copy\<close> on the marker and raises \<^verbatim>\<open>AttributeError\<close>.
\<close>

theorem assign_raises_on_contradiction:
  "eliminate (Suc k) h None c d = (h, Inr None) \<and>
   solve_sudoku (Suc k) h None next_cell order_choices = (h, Inr None) \<and>
   assign (Suc k) h None c d = (h, Inl AttributeError)"
  by (simp add: assign_None)

text \<open>
  C3. \<^verbatim>\<open>assign\<close> leaves every object that existed before the call as it was, whatever
  it returns or raises: in particular the grid the caller passed in.
\<close>

theorem assign_leaves_existing_grids:
  "r < next_ref h \<Longrightarrow> objs (fst (assign k h g c d)) r = objs h r"
  by (rule assign_frame)

theorem assign_leaves_existing_grids_witness:
  "0 < next_ref store4 \<and> objs (fst (assign 1000 store4 (Some 0) (1, 1) 7)) 0 = objs store4 0 \<and>
   snd (assign 1000 store4 (Some 0) (1, 1) 7) = Inr None"
proof -
  have a: "0 < next_ref store4" by (simp add: objs_store4)
  have b: "snd (assign 1000 store4 (Some 0) (1, 1) 7) = Inr None" by code_simp
  show ?thesis
    using a b assign_leaves_existing_grids[OF a, of 1000 "Some 0" "(1, 1)" 7] by simp
qed

text \<open>
  C4, as stated, fails: \<^verbatim>\<open>eliminate\<close> writes the emptied set into the object it was
  given before it returns the contradiction marker, and a later call on that object
  returns it. Here the first cell of a 4 by 4 grid holds only the digit 3; eliminating 3
  returns the marker, and eliminating 3 once more returns the grid, whose first cell is
  empty.
\<close>

theorem eliminate_returns_grid_with_empty_cell:
  "map_of (cells (objs store_three 1)) (1, 1) = Some {|3|} \<and>
   snd (eliminate 1000 store_three (Some 1) (1, 1) 3) = Inr None \<and>
   snd (eliminate 1000 store_emptied (Some 1) (1, 1) 3) = Inr (Some 1) \<and>
   map_of (cells (objs (fst (eliminate 1000 store_emptied (Some 1) (1, 1) 3)) 1)) (1, 1) = Some {||}"
  by code_simp

text \<open>
  C4, amended. From a grid in which no cell is empty: a grid returned by \<^verbatim>\<open>eliminate\<close>
  or \<^verbatim>\<open>assign\<close> has no empty cell; and a call after which a cell is empty, in the
  object \<^verbatim>\<open>eliminate\<close> was given or in the copy \<^verbatim>\<open>assign\<close> works on, has returned the
  contradiction marker. Eliminating the only candidate of a cell returns the marker and
  leaves the cell empty in the object passed in.
\<close>

theorem no_empty_cell_from_valid_grid:
  "(nonempty (objs h r) \<and> snd (eliminate k h (Some r) c d) = Inr (Some r') \<longrightarrow>
      nonempty (objs (fst (eliminate k h (Some r) c d)) r')) \<and>
   (nonempty (objs h r) \<and> snd (assign k h (Some r) c d) = Inr (Some r') \<longrightarrow>
      nonempty (objs (fst (assign k h (Some r) c d)) r')) \<and>
   (nonempty (objs h r) \<and> \<not> nonempty (objs (fst (eliminate k h (Some r) c d)) r) \<longrightarrow>
      snd (eliminate k h (Some r) c d) = Inr None) \<and>
   (nonempty (objs h r) \<and> \<not> nonempty (objs (fst (assign (Suc k) h (Some r) c d)) (next_ref h)) \<longrightarrow>
      snd (assign (Suc k) h (Some r) c d) = Inr None) \<and>
   (map_of (cells (objs h r)) c = Some {|d|} \<longrightarrow>
      eliminate (Suc k) h (Some r) c d = (set_cell h r c {||}, Inr None))"
proof (intro conjI impI)
  assume a: "nonempty (objs h r) \<and> snd (eliminate k h (Some r) c d) = Inr (Some r')"
  then have "r' = r" using evolves_result[OF eliminate_evolves(1)] by blast
  moreover have "no_new_empty (objs h r) (objs (fst (eliminate k h (Some r) c d)) r)"
    using a by (intro eliminate_no_new_empty(1)) simp
  ultimately show "nonempty (objs (fst (eliminate k h (Some r) c d)) r')"
    using a no_new_empty_nonempty by blast
next
  assume a: "nonempty (objs h r) \<and> snd (assign k h (Some r) c d) = Inr (Some r')"
  then obtain k' where k: "k = Suc k'" and r': "r' = next_ref h"
    using assign_returned[of k h "Some r" c d r'] by auto
  have "no_new_empty (objs h r) (objs (fst (assign (Suc k') h (Some r) c d)) (next_ref h))"
    using a k by (intro assign_no_new_empty) simp
  then show "nonempty (objs (fst (assign k h (Some r) c d)) r')"
    using a k r' no_new_empty_nonempty by blast
next
  assume a: "nonempty (objs h r) \<and> \<not> nonempty (objs (fst (eliminate k h (Some r) c d)) r)"
  show "snd (eliminate k h (Some r) c d) = Inr None"
  proof (rule ccontr)
    assume "snd (eliminate k h (Some r) c d) \<noteq> Inr None"
    from eliminate_no_new_empty(1)[OF this, of r] show False
      using a no_new_empty_nonempty by blast
  qed
next
  assume a: "nonempty (objs h r) \<and>
     \<not> nonempty (objs (fst (assign (Suc k) h (Some r) c d)) (next_ref h))"
  show "snd (assign (Suc k) h (Some r) c d) = Inr None"
  proof (rule ccontr)
    assume "snd (assign (Suc k) h (Some r) c d) \<noteq> Inr None"
    from assign_no_new_empty[OF this] show False
      using a no_new_empty_nonempty by blast
  qed
next
  assume "map_of (cells (objs h r)) c = Some {|d|}"
  then show "eliminate (Suc k) h (Some r) c d = (set_cell h r c {||}, Inr None)"
    using eliminate_hit[of h r c "{|d|}" d "{||}" k] by simp
qed

theorem no_empty_cell_from_valid_grid_witness:
  "nonempty (objs store4 0) \<and>
   snd (eliminate 1000 store4 (Some 0) (1, 1) 1) = Inr (Some 0) \<and>
   nonempty (objs (fst (eliminate 1000 store4 (Some 0) (1, 1) 1)) 0) \<and>
   snd (apply_calls 1000 store4 (Some 0) row_calls) = Inr (Some 2) \<and>
   nonempty (objs store_row 2) \<and>
   map_of (cells (objs (fst (eliminate 1000 store_row (Some 2) (2, 4) 4)) 2)) (2, 4) = Some {||} \<and>
   snd (eliminate 1000 store_row (Some 2) (2, 4) 4) = Inr None \<and>
   map_of (cells (objs (fst (assign 1000 store_row (Some 2) (2, 4) 3)) 3)) (2, 4) = Some {||} \<and>
   snd (assign 1000 store_row (Some 2) (2, 4) 3) = Inr None \<and>
   map_of (cells (objs store_three 1)) (1, 1) = Some {|3|} \<and>
   eliminate 1000 store_three (Some 1) (1, 1) 3 = (set_cell store_three 1 (1, 1) {||}, Inr None)"
proof -
  have n4: "nonempty (objs store4 0)" using nonempty_empty_sudoku[of 2] by (simp add: objs_store4)
  have e1: "snd (eliminate 1000 store4 (Some 0) (1, 1) 1) = Inr (Some 0)" by code_simp
  have e2: "nonempty (objs (fst (eliminate 1000 store4 (Some 0) (1, 1) 1)) 0)"
    using no_empty_cell_from_valid_grid[of store4 0 1000 "(1, 1)" 1 0] n4 e1 by blast
  have a1: "snd (assign 1000 store4 (Some 0) (1, 1) 1) = Inr (Some 1)" by code_simp
  have a2: "snd (assign 1000 (fst (assign 1000 store4 (Some 0) (1, 1) 1)) (Some 1) (1, 2) 2) = Inr (Some 2)"
    by code_simp
  have a3: "snd (eliminate 1000
              (fst (assign 1000 (fst (assign 1000 store4 (Some 0) (1, 1) 1)) (Some 1) (1, 2) 2))
              (Some 2) (2, 4) 1) = Inr (Some 2)"
    by code_simp
  have a4: "snd (eliminate 1000 (fst (eliminate 1000
              (fst (assign 1000 (fst (assign 1000 store4 (Some 0) (1, 1) 1)) (Some 1) (1, 2) 2))
              (Some 2) (2, 4) 1)) (Some 2) (2, 4) 2) = Inr (Some 2)"
    by code_simp
  have sr: "store_row = fst (eliminate 1000 (fst (eliminate 1000
              (fst (assign 1000 (fst (assign 1000 store4 (Some 0) (1, 1) 1)) (Some 1) (1, 2) 2))
              (Some 2) (2, 4) 1)) (Some 2) (2, 4) 2)"
    unfolding store_row_def row_calls_def
    by (simp only: apply_calls_Assign[OF a1] apply_calls_Assign[OF a2]
          apply_calls_Eliminate[OF a3] apply_calls_Eliminate[OF a4] apply_calls.simps(1) fst_conv)
  have c: "snd (apply_calls 1000 store4 (Some 0) row_calls) = Inr (Some 2)" by code_simp
  let ?h1 = "fst (assign 1000 store4 (Some 0) (1, 1) 1)"
  let ?h2 = "fst (assign 1000 ?h1 (Some 1) (1, 2) 2)"
  let ?h3 = "fst (eliminate 1000 ?h2 (Some 2) (2, 4) 1)"
  have n1: "nonempty (objs ?h1 1)"
    using no_empty_cell_from_valid_grid[of store4 0 1000 "(1, 1)" 1 1] n4 a1 by blast
  have n2: "nonempty (objs ?h2 2)"
    using no_empty_cell_from_valid_grid[of ?h1 1 1000 "(1, 2)" 2 2] n1 a2 by blast
  have n3: "nonempty (objs ?h3 2)"
    using no_empty_cell_from_valid_grid[of ?h2 2 1000 "(2, 4)" 1 2] n2 a3 by blast
  have nr: "nonempty (objs store_row 2)"
    unfolding sr using no_empty_cell_from_valid_grid[of ?h3 2 1000 "(2, 4)" 2 2] n3 a4 by blast
  have f1: "map_of (cells (objs (fst (eliminate 1000 store_row (Some 2) (2, 4) 4)) 2)) (2, 4) = Some {||}"
    by code_simp
  have f2: "snd (eliminate 1000 store_row (Some 2) (2, 4) 4) = Inr None"
    using no_empty_cell_from_valid_grid[of store_row 2 1000 "(2, 4)" 4] nr
      empty_cell_not_nonempty[OF f1] by blast
  have nx: "next_ref store_row = 3" by code_simp
  have g1: "map_of (cells (objs (fst (assign 1000 store_row (Some 2) (2, 4) 3)) 3)) (2, 4) = Some {||}"
    by code_simp
  have "snd (assign (Suc 999) store_row (Some 2) (2, 4) 3) = Inr None"
    using no_empty_cell_from_valid_grid[of store_row 2 999 "(2, 4)" 3] nr
      empty_cell_not_nonempty[OF g1] nx by simp
  then have g2: "snd (assign 1000 store_row (Some 2) (2, 4) 3) = Inr None" by simp
  have t1: "map_of (cells (objs store_three 1)) (1, 1) = Some {|3|}" by code_simp
  have "eliminate (Suc 999) store_three (Some 1) (1, 1) 3 = (set_cell store_three 1 (1, 1) {||}, Inr None)"
    using no_empty_cell_from_valid_grid[of store_three 1 999 "(1, 1)" 3] t1 by blast
  then have t2: "eliminate 1000 store_three (Some 1) (1, 1) 3
      = (set_cell store_three 1 (1, 1) {||}, Inr None)" by simp
  show ?thesis
    by (intro conjI) (fact n4 e1 e2 c nr f1 f2 g1 g2 t1 t2)+
qed




lemma apply_calls_None: "snd (apply_calls k h None calls) \<noteq> Inr (Some r)"
proof (induction calls arbitrary: h)
  case Nil
  show ?case by simp
next
  case (Cons a calls)
  show ?case
  proof (cases k)
    case 0
    then show ?thesis by (cases a) auto
  next
    case (Suc k')
    then show ?thesis using Cons by (cases a) (auto simp: assign_None)
  qed
qed

lemma apply_calls_shrinks:
  "snd (apply_calls k h (Some r) calls) = Inr (Some r') \<Longrightarrow>
     shrinks (objs h r) (objs (fst (apply_calls k h (Some r) calls)) r')"
proof (induction calls arbitrary: h r)
  case Nil
  then show ?case by (simp add: shrinks_refl)
next
  case (Cons a calls)
  show ?case
  proof (cases a)
    case (Eliminate c d)
    show ?thesis
    proof (cases "eliminate k h (Some r) c d")
      case (Pair h1 res)
      show ?thesis
      proof (cases res)
        case (Inl e)
        then show ?thesis using Cons(2) Eliminate Pair by simp
      next
        case (Inr g1)
        have eq: "apply_calls k h (Some r) (a # calls) = apply_calls k h1 g1 calls"
          using Eliminate Pair Inr by simp
        have "g1 \<noteq> None" using Cons(2) eq apply_calls_None[of k h1 calls r'] by (cases g1) auto
        moreover have ev: "evolves h (Some r) (h1, Inr g1)"
          using eliminate_evolves(1)[of h "Some r" k c d] Pair Inr by simp
        ultimately have g1: "g1 = Some r" using evolves_None[OF ev] by blast
        have a: "shrinks (objs h r) (objs h1 r)" using evolves_shrinks[OF ev, of r] by simp
        have b: "shrinks (objs h1 r) (objs (fst (apply_calls k h1 (Some r) calls)) r')"
          using Cons(1)[of h1 r] Cons(2) eq g1 by simp
        show ?thesis using shrinks_trans[OF a b] eq g1 by simp
      qed
    qed
  next
    case (Assign c d)
    show ?thesis
    proof (cases "assign k h (Some r) c d")
      case (Pair h1 res)
      show ?thesis
      proof (cases res)
        case (Inl e)
        then show ?thesis using Cons(2) Assign Pair by simp
      next
        case (Inr g1)
        have eq: "apply_calls k h (Some r) (a # calls) = apply_calls k h1 g1 calls"
          using Assign Pair Inr by simp
        have "g1 \<noteq> None" using Cons(2) eq apply_calls_None[of k h1 calls r'] by (cases g1) auto
        then obtain r1 where g1: "g1 = Some r1" by auto
        have a: "shrinks (objs h r) (objs h1 r1)"
          using assign_shrinks[of k h r c d r1] Pair Inr g1 by simp
        have b: "shrinks (objs h1 r1) (objs (fst (apply_calls k h1 (Some r1) calls)) r')"
          using Cons(1)[of h1 r1] Cons(2) eq g1 by simp
        show ?thesis using shrinks_trans[OF a b] eq g1 by simp
      qed
    qed
  qed
qed

text \<open>
  C7. When \<^verbatim>\<open>eliminate\<close> or \<^verbatim>\<open>assign\<close> returns a grid, that grid has the keys of
  the grid passed in and each of its candidate sets is a subset of the set the grid passed
  in has for that cell. The same holds between the first and the last grid of any
  sequence of such calls, each made on the grid the call before returned.
\<close>

theorem candidate_sets_only_shrink:
  "(snd (eliminate k h (Some r) c d) = Inr (Some r') \<longrightarrow>
      shrinks (objs h r) (objs (fst (eliminate k h (Some r) c d)) r')) \<and>
   (snd (assign k h (Some r) c d) = Inr (Some r') \<longrightarrow>
      shrinks (objs h r) (objs (fst (assign k h (Some r) c d)) r')) \<and>
   (snd (apply_calls k h (Some r) calls) = Inr (Some r') \<longrightarrow>
      shrinks (objs h r) (objs (fst (apply_calls k h (Some r) calls)) r'))"
proof (intro conjI impI)
  assume e: "snd (eliminate k h (Some r) c d) = Inr (Some r')"
  have "r' = r" using evolves_result[OF eliminate_evolves(1) e] by simp
  then show "shrinks (objs h r) (objs (fst (eliminate k h (Some r) c d)) r')"
    using evolves_shrinks[OF eliminate_evolves(1)[of h "Some r" k c d], of r] by simp
next
  assume "snd (assign k h (Some r) c d) = Inr (Some r')"
  then show "shrinks (objs h r) (objs (fst (assign k h (Some r) c d)) r')"
    by (rule assign_shrinks)
next
  assume "snd (apply_calls k h (Some r) calls) = Inr (Some r')"
  then show "shrinks (objs h r) (objs (fst (apply_calls k h (Some r) calls)) r')"
    by (rule apply_calls_shrinks)
qed

theorem candidate_sets_only_shrink_witness:
  "snd (eliminate 1000 store4 (Some 0) (1, 1) 1) = Inr (Some 0) \<and>
   shrinks (objs store4 0) (objs (fst (eliminate 1000 store4 (Some 0) (1, 1) 1)) 0) \<and>
   snd (assign 1000 store4 (Some 0) (1, 1) 1) = Inr (Some 1) \<and>
   shrinks (objs store4 0) (objs (fst (assign 1000 store4 (Some 0) (1, 1) 1)) 1) \<and>
   snd (apply_calls 1000 store4 (Some 0) [Assign (1, 1) 1, Eliminate (2, 3) 2, Assign (4, 4) 3])
     = Inr (Some 2) \<and>
   shrinks (objs store4 0)
     (objs (fst (apply_calls 1000 store4 (Some 0) [Assign (1, 1) 1, Eliminate (2, 3) 2, Assign (4, 4) 3])) 2) \<and>
   map_of (cells (objs store4 0)) (1, 4) = Some {|1, 2, 3, 4|} \<and>
   map_of (cells (objs (fst (apply_calls 1000 store4 (Some 0)
       [Assign (1, 1) 1, Eliminate (2, 3) 2, Assign (4, 4) 3])) 2)) (1, 4) = Some {|2, 4|}"
proof -
  let ?calls = "[Assign (1, 1) 1, Eliminate (2, 3) 2, Assign (4, 4) 3]"
  have a: "snd (eliminate 1000 store4 (Some 0) (1, 1) 1) = Inr (Some 0)" by code_simp
  have b: "snd (assign 1000 store4 (Some 0) (1, 1) 1) = Inr (Some 1)" by code_simp
  have c: "snd (apply_calls 1000 store4 (Some 0) ?calls) = Inr (Some 2)" by code_simp
  have d: "map_of (cells (objs store4 0)) (1, 4) = Some {|1, 2, 3, 4|}" by code_simp
  have e: "map_of (cells (objs (fst (apply_calls 1000 store4 (Some 0) ?calls)) 2)) (1, 4) = Some {|2, 4|}"
    by code_simp
  have a': "shrinks (objs store4 0) (objs (fst (eliminate 1000 store4 (Some 0) (1, 1) 1)) 0)"
    using candidate_sets_only_shrink[of 1000 store4 0 "(1, 1)" 1 0] a by blast
  have b': "shrinks (objs store4 0) (objs (fst (assign 1000 store4 (Some 0) (1, 1) 1)) 1)"
    using candidate_sets_only_shrink[of 1000 store4 0 "(1, 1)" 1 1] b by blast
  have c': "shrinks (objs store4 0) (objs (fst (apply_calls 1000 store4 (Some 0) ?calls)) 2)"
    using candidate_sets_only_shrink[of 1000 store4 0 _ _ 2 ?calls] c by blast
  show ?thesis by (intro conjI) (fact a a' b b' c c' d e)+
qed

text \<open>
  C8. Applying \<^verbatim>\<open>eliminate\<close> to its own result with the same cell and digit gives what
  the first application gave, store included. And eliminating a digit that is not a
  candidate of the cell returns the grid and changes nothing.
\<close>

theorem eliminate_idempotent:
  "eliminate_twice k h g c d = eliminate k h g c d \<and>
   (map_of (cells (objs h r)) c = Some s \<and> d |\<notin>| s \<longrightarrow>
      eliminate (Suc k) h (Some r) c d = (h, Inr (Some r)))"
proof
  show "eliminate_twice k h g c d = eliminate k h g c d"
  proof (cases "eliminate k h g c d")
    case (Pair h1 res)
    show ?thesis
    proof (cases res)
      case (Inl e)
      then show ?thesis using Pair by (simp add: eliminate_twice_def)
    next
      case (Inr g1)
      obtain k' where k: "k = Suc k'" using eliminate_returned[of k h g c d g1] Pair Inr by auto
      show ?thesis
      proof (cases g1)
        case None
        then show ?thesis using Pair Inr k by (simp add: eliminate_twice_def)
      next
        case (Some r1)
        obtain s1 where "map_of (cells (objs h1 r1)) c = Some s1" "d |\<notin>| s1"
          using eliminate_removes[of k h g c d r1] Pair Inr Some by auto
        then have "eliminate (Suc k') h1 (Some r1) c d = (h1, Inr (Some r1))"
          by (rule eliminate_noop)
        then show ?thesis using Pair Inr Some k by (simp add: eliminate_twice_def)
      qed
    qed
  qed
  show "map_of (cells (objs h r)) c = Some s \<and> d |\<notin>| s \<longrightarrow>
      eliminate (Suc k) h (Some r) c d = (h, Inr (Some r))"
    by (simp add: eliminate_noop)
qed

theorem eliminate_idempotent_witness:
  "snd (eliminate 1000 store4 (Some 0) (1, 1) 1) = Inr (Some 0) \<and>
   map_of (cells (objs (fst (eliminate 1000 store4 (Some 0) (1, 1) 1)) 0)) (1, 1) = Some {|2, 3, 4|} \<and>
   eliminate_twice 1000 store4 (Some 0) (1, 1) 1 = eliminate 1000 store4 (Some 0) (1, 1) 1 \<and>
   eliminate 1000 (fst (eliminate 1000 store4 (Some 0) (1, 1) 1)) (Some 0) (1, 1) 1
     = (fst (eliminate 1000 store4 (Some 0) (1, 1) 1), Inr (Some 0))"
proof -
  let ?h = "fst (eliminate 1000 store4 (Some 0) (1, 1) 1)"
  have a: "snd (eliminate 1000 store4 (Some 0) (1, 1) 1) = Inr (Some 0)" by code_simp
  have b: "map_of (cells (objs ?h 0)) (1, 1) = Some {|2, 3, 4|}" by code_simp
  have c: "(1::int) |\<notin>| {|2, 3, 4|}" by simp
  have t: "eliminate_twice 1000 store4 (Some 0) (1, 1) 1 = eliminate 1000 store4 (Some 0) (1, 1) 1"
    using eliminate_idempotent[of 1000 store4 "Some 0" "(1, 1)" 1] by blast
  have "eliminate (Suc 999) ?h (Some 0) (1, 1) 1 = (?h, Inr (Some 0))"
    using eliminate_idempotent[of 999 ?h "Some 0" "(1, 1)" 1 0 "{|2, 3, 4|}"] b c by blast
  then have u: "eliminate 1000 ?h (Some 0) (1, 1) 1 = (?h, Inr (Some 0))" by simp
  show ?thesis by (intro conjI) (fact a b t u)+
qed

text \<open>
  C10. Assigning to a cell the one digit it still admits succeeds: the result is a new
  grid equal to the one passed in, cell for cell.
\<close>

theorem assign_forced_digit:
  "map_of (cells (objs h r)) c = Some {|d|} \<Longrightarrow>
     snd (assign (Suc k) h (Some r) c d) = Inr (Some (next_ref h)) \<and>
     objs (fst (assign (Suc k) h (Some r) c d)) (next_ref h) = objs h r \<and>
     cells (objs (fst (assign (Suc k) h (Some r) c d)) (next_ref h)) = cells (objs h r)"
  by (simp add: assign_Some copy_objs sorted_list_of_fset.rep_eq)

theorem assign_forced_digit_witness:
  "map_of (cells (objs store_three 1)) (1, 1) = Some {|3|} \<and>
   next_ref store_three = 2 \<and>
   snd (assign 1000 store_three (Some 1) (1, 1) 3) = Inr (Some 2) \<and>
   cells (objs (fst (assign 1000 store_three (Some 1) (1, 1) 3)) 2) = cells (objs store_three 1)"
proof -
  have a: "map_of (cells (objs store_three 1)) (1, 1) = Some {|3|}" by code_simp
  have b: "next_ref store_three = 2" by code_simp
  have "snd (assign (Suc 999) store_three (Some 1) (1, 1) 3) = Inr (Some (next_ref store_three)) \<and>
     cells (objs (fst (assign (Suc 999) store_three (Some 1) (1, 1) 3)) (next_ref store_three))
       = cells (objs store_three 1)"
    using assign_forced_digit[OF a, of 999] by blast
  then have c: "snd (assign 1000 store_three (Some 1) (1, 1) 3) = Inr (Some 2)"
    and d: "cells (objs (fst (assign 1000 store_three (Some 1) (1, 1) 3)) 2) = cells (objs store_three 1)"
    using b by simp_all
  show ?thesis by (intro conjI) (fact a b c d)+
qed

section \<open>Claims about the selection strategies\<close>

lemma index_Some:
  "x \<in> set xs \<Longrightarrow> \<exists>i. index xs x = Some i \<and> i < length xs \<and> xs ! i = x"
  by (induction xs) auto

lemma key_list_set: "set (key_list (cells g)) = {k \<in> keys g. 1 < len_at g k}"
  by (auto simp: key_list_def keys_def len_at_def)

lemma count_list_eq: "count_list (cells g) = map (len_at g) (key_list (cells g))"
  by (simp add: count_list_def len_at_def)

lemma pick_by_count:
  assumes "key_list (cells g) \<noteq> []" "m \<in> set (count_list (cells g))"
  shows "\<exists>k. (case index (count_list (cells g)) m of None \<Rightarrow> Inl ValueError
                 | Some i \<Rightarrow> Inr (key_list (cells g) ! i)) = Inr k \<and>
             k \<in> keys g \<and> 1 < len_at g k \<and> len_at g k = m"
proof -
  obtain i where i: "index (count_list (cells g)) m = Some i" "i < length (count_list (cells g))"
      "count_list (cells g) ! i = m"
    using index_Some[OF assms(2)] by blast
  let ?k = "key_list (cells g) ! i"
  have il: "i < length (key_list (cells g))" using i(2) by (simp add: count_list_eq)
  then have "?k \<in> set (key_list (cells g))" by simp
  then have "?k \<in> keys g \<and> 1 < len_at g ?k" by (simp add: key_list_set)
  moreover have "len_at g ?k = m" using i(3) il by (simp add: count_list_eq)
  ultimately show ?thesis using i(1) by simp
qed

text \<open>
  C9. When some cell has more than one candidate, \<^verbatim>\<open>most_constrained\<close> returns a cell
  of the grid with more than one candidate and no more candidates than any other such
  cell, and \<^verbatim>\<open>least_constrained\<close> one with no fewer. When no cell has more than one
  candidate, as in a grid whose cells are all singletons, both raise \<^verbatim>\<open>ValueError\<close>.
\<close>

theorem selection_filtering:
  "((\<exists>k \<in> keys g. 1 < len_at g k) \<longrightarrow>
      (\<exists>k. most_constrained g = Inr k \<and> k \<in> keys g \<and> 1 < len_at g k \<and>
           (\<forall>k' \<in> keys g. 1 < len_at g k' \<longrightarrow> len_at g k \<le> len_at g k')) \<and>
      (\<exists>k. least_constrained g = Inr k \<and> k \<in> keys g \<and> 1 < len_at g k \<and>
           (\<forall>k' \<in> keys g. 1 < len_at g k' \<longrightarrow> len_at g k' \<le> len_at g k))) \<and>
   ((\<forall>k \<in> keys g. len_at g k = 1) \<longrightarrow>
      most_constrained g = Inl ValueError \<and> least_constrained g = Inl ValueError)"
proof (intro conjI impI)
  assume "\<exists>k \<in> keys g. 1 < len_at g k"
  then have ne: "key_list (cells g) \<noteq> []"
    using key_list_set[of g] by (metis (mono_tags, lifting) empty_iff mem_Collect_eq set_empty)
  then have cne: "count_list (cells g) \<noteq> []" by (simp add: count_list_eq)
  let ?cs = "set (count_list (cells g))"
  have fin: "finite ?cs" "?cs \<noteq> {}" using cne by simp_all
  have all: "len_at g k' \<in> ?cs" if "k' \<in> keys g" "1 < len_at g k'" for k'
    using that key_list_set[of g] by (simp add: count_list_eq)
  obtain k where k: "most_constrained g = Inr k" "k \<in> keys g" "1 < len_at g k" "len_at g k = Min ?cs"
    using pick_by_count[OF ne Min_in[OF fin]] cne by (auto simp: most_constrained_def Let_def)
  have "len_at g k \<le> len_at g k'" if "k' \<in> keys g" "1 < len_at g k'" for k'
    using Min_le[OF fin(1) all[OF that]] k(4) by simp
  then show "\<exists>k. most_constrained g = Inr k \<and> k \<in> keys g \<and> 1 < len_at g k \<and>
           (\<forall>k' \<in> keys g. 1 < len_at g k' \<longrightarrow> len_at g k \<le> len_at g k')"
    using k by blast
  obtain k where k: "least_constrained g = Inr k" "k \<in> keys g" "1 < len_at g k" "len_at g k = Max ?cs"
    using pick_by_count[OF ne Max_in[OF fin]] cne by (auto simp: least_constrained_def Let_def)
  have "len_at g k' \<le> len_at g k" if "k' \<in> keys g" "1 < len_at g k'" for k'
    using Max_ge[OF fin(1) all[OF that]] k(4) by simp
  then show "\<exists>k. least_constrained g = Inr k \<and> k \<in> keys g \<and> 1 < len_at g k \<and>
           (\<forall>k' \<in> keys g. 1 < len_at g k' \<longrightarrow> len_at g k' \<le> len_at g k)"
    using k by blast
next
  assume a: "\<forall>k \<in> keys g. len_at g k = 1"
  have "set (key_list (cells g)) = {}" using a by (auto simp: key_list_set)
  then have e: "count_list (cells g) = []" by (simp add: count_list_eq)
  show "most_constrained g = Inl ValueError" using e by (simp add: most_constrained_def)
  show "least_constrained g = Inl ValueError" using e by (simp add: least_constrained_def)
qed

theorem selection_filtering_witness:
  "(1, 2) \<in> keys (objs store_three 1) \<and>
   1 < len_at (objs store_three 1) (1, 2) \<and>
   most_constrained (objs store_three 1) = Inr (1, 2) \<and>
   least_constrained (objs store_three 1) = Inr (2, 3) \<and>
   len_at (objs store_three 1) (1, 2)
     \<le> len_at (objs store_three 1) (2, 3) \<and>
   most_constrained (empty_sudoku 1) = Inl ValueError \<and>
   least_constrained (empty_sudoku 1) = Inl ValueError"
proof -
  let ?g = "objs store_three 1"
  have a: "(1, 2) \<in> keys ?g" by code_simp
  have b: "1 < len_at ?g (1, 2)" by code_simp
  have c: "most_constrained ?g = Inr (1, 2)" by code_simp
  have d: "least_constrained ?g = Inr (2, 3)" by code_simp
  have e: "(2, 3) \<in> keys ?g" "1 < len_at ?g (2, 3)" by code_simp+
  have f: "\<forall>k \<in> keys (empty_sudoku 1). len_at (empty_sudoku 1) k = 1" by code_simp
  have ex: "\<exists>k \<in> keys ?g. 1 < len_at ?g k" using a b by blast
  have "len_at ?g (1, 2) \<le> len_at ?g (2, 3)"
    using selection_filtering[of ?g] ex c e by auto
  then show ?thesis using a b c d f selection_filtering[of "empty_sudoku 1"] by simp
qed

section \<open>Claims about the search\<close>

lemma try_choices_first_success:
  "try_choices k h r idx vs nc oc = first_success (\<lambda>h v. trial k h r idx v nc oc) h vs"
proof (induction vs arbitrary: h)
  case Nil
  show ?case by simp
next
  case (Cons v vs)
  show ?case
  proof (cases "assign k h (Some r) idx v")
    case (Pair h1 res)
    show ?thesis
    proof (cases res)
      case (Inl e)
      then show ?thesis using Pair by (simp add: trial_def)
    next
      case (Inr ng)
      show ?thesis
      proof (cases "solve_sudoku k h1 ng nc oc")
        case p2: (Pair h2 res2)
        show ?thesis
        proof (cases res2)
          case (Inl e)
          then show ?thesis using Pair Inr p2 by (simp add: trial_def)
        next
          case i2: (Inr outcome)
          show ?thesis using Pair Inr p2 i2 Cons[of h2] by (cases outcome) (simp_all add: trial_def)
        qed
      qed
    qed
  qed
qed

lemma first_success_None:
  "snd (first_success f h vs) = Inr None \<longleftrightarrow> list_all (\<lambda>res. res = Inr None) (trial_results f h vs)"
  by (induction vs arbitrary: h) (auto split: prod.splits)

text \<open>
  C6. On a solved grid \<^verbatim>\<open>solve_sudoku\<close> returns that grid and changes nothing. On a grid
  that is not solved, with the cell and the trial values the two strategies return, it
  returns the result of the first trial that is not the failure marker (an exception
  raised in a trial being such a result), and the failure marker exactly when every
  trial gives the failure marker.
\<close>

theorem solve_sudoku_search:
  "(solved (objs h r) \<longrightarrow> solve_sudoku (Suc k) h (Some r) nc oc = (h, Inr (Some r))) \<and>
   (\<not> solved (objs h r) \<and> nc (objs h r) = Inr idx \<and> oc (objs h r) idx = Inr choices \<longrightarrow>
      solve_sudoku (Suc k) h (Some r) nc oc
        = first_success (\<lambda>h v. trial k h r idx v nc oc) h choices \<and>
      (snd (solve_sudoku (Suc k) h (Some r) nc oc) = Inr None \<longleftrightarrow>
         list_all (\<lambda>res. res = Inr None) (trial_results (\<lambda>h v. trial k h r idx v nc oc) h choices)))"
  by (simp add: try_choices_first_success first_success_None)

theorem solve_sudoku_search_witness:
  "solved (objs store1 0) \<and>
   solve_sudoku (Suc 0) store1 (Some 0) most_constrained ascending_order = (store1, Inr (Some 0)) \<and>
   \<not> solved (objs store4 0) \<and>
   most_constrained (objs store4 0) = Inr (1, 1) \<and>
   ascending_order (objs store4 0) (1, 1) = Inr [1, 2, 3, 4] \<and>
   solve_sudoku (Suc 99) store4 (Some 0) most_constrained ascending_order
     = first_success (\<lambda>h v. trial 99 h 0 (1, 1) v most_constrained ascending_order) store4 [1, 2, 3, 4] \<and>
   snd (solve_sudoku (Suc 99) store4 (Some 0) most_constrained ascending_order) = Inr (Some 7) \<and>
   solved (objs (fst (solve_sudoku (Suc 99) store4 (Some 0) most_constrained ascending_order)) 7) \<and>
   \<not> solved (objs store_stuck 0) \<and>
   most_constrained (objs store_stuck 0) = Inr (1, 1) \<and>
   ascending_order (objs store_stuck 0) (1, 1) = Inr [1, 2] \<and>
   trial_results (\<lambda>h v. trial 9 h 0 (1, 1) v most_constrained ascending_order) store_stuck [1, 2]
     = [Inr None, Inr None] \<and>
   snd (solve_sudoku (Suc 9) store_stuck (Some 0) most_constrained ascending_order) = Inr None"
proof -
  have a: "solved (objs store1 0)" by code_simp
  have b: "\<not> solved (objs store4 0)" by code_simp
  have c: "most_constrained (objs store4 0) = Inr (1, 1)" by code_simp
  have d: "ascending_order (objs store4 0) (1, 1) = Inr [1, 2, 3, 4]" by code_simp
  have e: "snd (solve_sudoku (Suc 99) store4 (Some 0) most_constrained ascending_order) = Inr (Some 7)"
    by code_simp
  have f: "solved (objs (fst (solve_sudoku (Suc 99) store4 (Some 0) most_constrained ascending_order)) 7)"
    by code_simp
  have g: "\<not> solved (objs store_stuck 0)" by code_simp
  have i: "most_constrained (objs store_stuck 0) = Inr (1, 1)" by code_simp
  have j: "ascending_order (objs store_stuck 0) (1, 1) = Inr [1, 2]" by code_simp
  have k: "trial_results (\<lambda>h v. trial 9 h 0 (1, 1) v most_constrained ascending_order) store_stuck [1, 2]
     = [Inr None, Inr None]" by code_simp
  have s1: "solve_sudoku (Suc 0) store1 (Some 0) most_constrained ascending_order = (store1, Inr (Some 0))"
    using solve_sudoku_search[of store1 0 0 most_constrained ascending_order] a by blast
  have s2: "solve_sudoku (Suc 99) store4 (Some 0) most_constrained ascending_order
     = first_success (\<lambda>h v. trial 99 h 0 (1, 1) v most_constrained ascending_order) store4 [1, 2, 3, 4]"
    using solve_sudoku_search[of store4 0 99 most_constrained ascending_order "(1, 1)" "[1, 2, 3, 4]"] b c d
    by blast
  have "list_all (\<lambda>res. res = Inr None)
          (trial_results (\<lambda>h v. trial 9 h 0 (1, 1) v most_constrained ascending_order) store_stuck [1, 2])"
    unfolding k by simp
  then have s3: "snd (solve_sudoku (Suc 9) store_stuck (Some 0) most_constrained ascending_order) = Inr None"
    using solve_sudoku_search[of store_stuck 0 9 most_constrained ascending_order "(1, 1)" "[1, 2]"] g i j
    by blast
  show ?thesis
    by (intro conjI) (fact a s1 b c d s2 e f g i j k s3)+
qed

section \<open>Grid construction after a conflict\<close>

lemma parse_cols_after_contradiction:
  "Some v \<in> set vals \<Longrightarrow> snd (parse_cols (Suc k) h None row col vals) = Inl AttributeError"
proof (induction vals arbitrary: col)
  case Nil
  then show ?case by simp
next
  case (Cons a vals)
  then show ?case by (cases a) (auto simp: assign_None)
qed

text \<open>
  C2. When the conflicting cell is the last prefilled one, \<^verbatim>\<open>parse_grid\<close> returns the
  contradiction marker. When another prefilled cell follows it, the loop hands the marker
  to \<^verbatim>\<open>assign\<close>, which raises \<^verbatim>\<open>AttributeError\<close>.
\<close>

theorem parse_grid_raises_after_conflict:
  "snd (parse_grid 1000 store0 conflict_last) = Inr None \<and>
   snd (parse_grid 1000 store0 conflict_then_more) = Inl AttributeError"
  by code_simp

end
